theory Spec2Isabelle
  imports Main
begin

section \<open>Calendar dates\<close>

text \<open>
  The script works on \<^verbatim>\<open>datetime.date\<close> values.  A date is represented by its proleptic
  Gregorian ordinal (\<^verbatim>\<open>date.toordinal()\<close>: day 1 is 0001-01-01, a Monday).  The library
  only has the dates from 0001-01-01 (ordinal 1) to 9999-12-31 (ordinal 3652059); adding
  or subtracting a \<^verbatim>\<open>timedelta\<close> that leaves this range raises \<^verbatim>\<open>OverflowError\<close>.  A
  \<^verbatim>\<open>timedelta\<close> that is too large to be built raises the same error, and only for an
  offset that would leave the range of dates in any case.
\<close>

datatype error =
    ValueError string
  | OverflowError
  | IndexError
  | FileNotFoundError
  | EOFError

datatype date = Date (toordinal: int)

definition MAXORDINAL :: int where
  "MAXORDINAL = 3652059"

definition valid_date :: "date \<Rightarrow> bool" where
  "valid_date d \<longleftrightarrow> 1 \<le> toordinal d \<and> toordinal d \<le> MAXORDINAL"

text \<open>\<^verbatim>\<open>date.weekday()\<close>: Monday is 0, Sunday is 6.\<close>

definition weekday :: "date \<Rightarrow> int" where
  "weekday d = (toordinal d + 6) mod 7"

text \<open>\<^verbatim>\<open>d + timedelta(days=n)\<close>; \<^verbatim>\<open>d - timedelta(days=n)\<close> is \<open>date_add_days d (- n)\<close>.\<close>

definition date_add_days :: "date \<Rightarrow> int \<Rightarrow> error + date" where
  "date_add_days d n =
     (let k = toordinal d + n
      in if 0 < k \<and> k \<le> MAXORDINAL then Inr (Date k) else Inl OverflowError)"

text \<open>\<^verbatim>\<open>datetime.date(y, m, d).toordinal()\<close> for a valid year, month and day.\<close>

definition is_leap :: "int \<Rightarrow> bool" where
  "is_leap y \<longleftrightarrow> y mod 4 = 0 \<and> (y mod 100 \<noteq> 0 \<or> y mod 400 = 0)"

definition days_before_year :: "int \<Rightarrow> int" where
  "days_before_year y = (let y1 = y - 1 in y1 * 365 + y1 div 4 - y1 div 100 + y1 div 400)"

definition days_in_month :: "int \<Rightarrow> int \<Rightarrow> int" where
  "days_in_month y m =
     (if m = 2 then (if is_leap y then 29 else 28)
      else if m = 4 \<or> m = 6 \<or> m = 9 \<or> m = 11 then 30 else 31)"

definition days_before_month :: "int \<Rightarrow> int \<Rightarrow> int" where
  "days_before_month y m = (\<Sum>k \<leftarrow> [1..<nat m]. days_in_month y (int k))"

definition ymd2ord :: "int \<Rightarrow> int \<Rightarrow> int \<Rightarrow> int" where
  "ymd2ord y m d = days_before_year y + days_before_month y m + d"

definition mk_date :: "int \<Rightarrow> int \<Rightarrow> int \<Rightarrow> date" where
  "mk_date y m d = Date (ymd2ord y m d)"

section \<open>The font and the bitmap builder\<close>

text \<open>
  \<^verbatim>\<open>FONT\<close> is a dictionary from a character to seven strings of five characters.  The
  literal maps the four lower-case letters to \<^verbatim>\<open>None\<close>; four assignments then give
  them the pattern of the upper-case letter.
\<close>

definition FONT_literal :: "char \<rightharpoonup> string list option" where
  "FONT_literal =
     [CHR ''P'' \<mapsto> Some [''11110'', ''10001'', ''10001'', ''11110'', ''10000'', ''10000'', ''10000''],
      CHR ''I'' \<mapsto> Some [''01110'', ''00100'', ''00100'', ''00100'', ''00100'', ''00100'', ''01110''],
      CHR ''Z'' \<mapsto> Some [''11111'', ''00001'', ''00010'', ''00100'', ''01000'', ''10000'', ''11111''],
      CHR ''A'' \<mapsto> Some [''01110'', ''10001'', ''10001'', ''11111'', ''10001'', ''10001'', ''10001''],
      CHR ''!'' \<mapsto> Some [''00100'', ''00100'', ''00100'', ''00100'', ''00100'', ''00000'', ''00100''],
      CHR ''p'' \<mapsto> None, CHR ''i'' \<mapsto> None, CHR ''z'' \<mapsto> None, CHR ''a'' \<mapsto> None]"

definition FONT :: "char \<rightharpoonup> string list option" where
  "FONT =
     (let f = FONT_literal;
          f = f(CHR ''p'' \<mapsto> the (f (CHR ''P'')));
          f = f(CHR ''i'' \<mapsto> the (f (CHR ''I'')));
          f = f(CHR ''z'' \<mapsto> the (f (CHR ''Z'')));
          f = f(CHR ''a'' \<mapsto> the (f (CHR ''A'')))
      in f)"

text \<open>\<^verbatim>\<open>FONT.get(ch)\<close>: \<^verbatim>\<open>None\<close> for a missing key and for a key bound to \<^verbatim>\<open>None\<close>.\<close>

definition FONT_get :: "char \<Rightarrow> string list option" where
  "FONT_get ch = (case FONT ch of None \<Rightarrow> None | Some v \<Rightarrow> v)"

definition MESSAGE :: string where
  "MESSAGE = ''Pizza!''"

text \<open>The two inner loops \<^verbatim>\<open>for r in range(7): rows[r] += ...\<close>.\<close>

definition add_gap :: "string list \<Rightarrow> int \<Rightarrow> string list" where
  "add_gap rows gap =
     fold (\<lambda>r rs. rs[r := rs ! r @ replicate (nat gap) (CHR ''0'')]) [0..<7] rows"

definition add_pattern :: "string list \<Rightarrow> string list \<Rightarrow> string list" where
  "add_pattern rows pattern =
     fold (\<lambda>r rs. rs[r := rs ! r @ pattern ! r]) [0..<7] rows"

fun build_loop :: "string \<Rightarrow> int \<Rightarrow> bool \<Rightarrow> string list \<Rightarrow> error + string list" where
  "build_loop [] gap first rows = Inr rows"
| "build_loop (ch # message) gap first rows =
     (let rows = (if \<not> first then add_gap rows gap else rows)
      in case FONT_get ch of
           None \<Rightarrow> Inl (ValueError (''No font pattern for character: '' @ [ch]))
         | Some pattern \<Rightarrow> build_loop message gap False (add_pattern rows pattern))"

definition build_bitmap :: "string \<Rightarrow> int \<Rightarrow> error + string list" where
  "build_bitmap message gap = build_loop message gap True (replicate 7 [])"

section \<open>Week alignment\<close>

text \<open>
  \<^verbatim>\<open>get_sunday_of_week\<close> is the function that \<^verbatim>\<open>main\<close> calls; \<^verbatim>\<open>sunday_for\<close> is not called
  anywhere and is left out.
\<close>

definition get_sunday_of_week :: "date \<Rightarrow> error + date" where
  "get_sunday_of_week d =
     (let days_to_subtract = (weekday d + 1) mod 7
      in date_add_days d (- days_to_subtract))"

section \<open>The date mapper\<close>

text \<open>\<^verbatim>\<open>xs[i]\<close> for an index that is not negative: out of range raises \<^verbatim>\<open>IndexError\<close>.\<close>

definition getitem :: "'a list \<Rightarrow> nat \<Rightarrow> error + 'a" where
  "getitem xs i = (if i < length xs then Inr (xs ! i) else Inl IndexError)"

text \<open>
  The nested loops of \<^verbatim>\<open>main\<close> that fill \<^verbatim>\<open>commits_to_make\<close>: the inner loop over the rows
  of one column, the outer loop over the columns.
\<close>

fun row_loop :: "string list \<Rightarrow> date \<Rightarrow> nat \<Rightarrow> nat list \<Rightarrow> date list \<Rightarrow> error + date list" where
  "row_loop bitmap week_start col [] commits_to_make = Inr commits_to_make"
| "row_loop bitmap week_start col (row # rows) commits_to_make =
     (case getitem bitmap row of
        Inl e \<Rightarrow> Inl e
      | Inr line \<Rightarrow>
          (case getitem line col of
             Inl e \<Rightarrow> Inl e
           | Inr px \<Rightarrow>
               if px = CHR ''1'' then
                 (case date_add_days week_start (int row) of
                    Inl e \<Rightarrow> Inl e
                  | Inr pixel_date \<Rightarrow>
                      row_loop bitmap week_start col rows (commits_to_make @ [pixel_date]))
               else row_loop bitmap week_start col rows commits_to_make))"

fun col_loop :: "string list \<Rightarrow> date \<Rightarrow> nat list \<Rightarrow> date list \<Rightarrow> error + date list" where
  "col_loop bitmap start [] commits_to_make = Inr commits_to_make"
| "col_loop bitmap start (col # cols) commits_to_make =
     (case date_add_days start (7 * int col) of
        Inl e \<Rightarrow> Inl e
      | Inr week_start \<Rightarrow>
          (case row_loop bitmap week_start col [0..<7] commits_to_make of
             Inl e \<Rightarrow> Inl e
           | Inr commits_to_make' \<Rightarrow> col_loop bitmap start cols commits_to_make'))"

definition pixel_dates :: "string list \<Rightarrow> nat \<Rightarrow> date \<Rightarrow> error + date list" where
  "pixel_dates bitmap total_cols start = col_loop bitmap start [0..<total_cols] []"

section \<open>The program and its environment\<close>

text \<open>
  What \<^verbatim>\<open>main\<close> does to the outside world is recorded as a list of events.  The text of a
  printed line is represented by a constructor that carries the values formatted into it.
\<close>

datatype console_msg =
    Not_a_git_repo
  | Bitmap_width nat
  | Warn_not_sunday
  | Invalid_date_format
  | Start_sunday_is date
  | End_week_is date date
  | Dry_run_listing
  | Totals nat int int
  | Pixel_date date
  | Done_dry_run
  | Aborted
  | Commit_failed date
  | All_created

datatype commit_message = Pixel_for_Pizza date int int

datatype event =
    Git_rev_parse
  | Print console_msg
  | Print_err console_msg
  | Prompt
  | Git_commit date commit_message

datatype outcome = Returned | Exit nat | Raised error

text \<open>
  The result of \<^verbatim>\<open>subprocess.run(..., check=True)\<close>: it completes, the command exits with a
  status that is not zero, or the executable cannot be started.
\<close>

datatype run_result = Completed | Called_Process_Error | Not_Found

text \<open>
  The environment of one run: the current date, the answer of \<^verbatim>\<open>git rev-parse\<close>, the
  library's \<^verbatim>\<open>strptime(s, "%Y-%m-%d").date()\<close> (\<open>None\<close> for its \<^verbatim>\<open>ValueError\<close>), the line
  read by \<^verbatim>\<open>input\<close> (\<open>None\<close> at end of file) and the answer of each \<^verbatim>\<open>git commit\<close>.
\<close>

record env =
  today :: date
  rev_parse :: run_result
  strptime :: "string \<Rightarrow> date option"
  stdin_line :: "string option"
  git_commit :: "date \<Rightarrow> commit_message \<Rightarrow> run_result"

record args =
  commits_per_pixel :: int
  start_sunday :: "string option"
  dry_run :: bool

type_synonym 'a prog = "event list \<times> (outcome + 'a)"

definition then_do :: "'a prog \<Rightarrow> ('a \<Rightarrow> 'b prog) \<Rightarrow> 'b prog" where
  "then_do m f =
     (case m of
        (tr, Inl out) \<Rightarrow> (tr, Inl out)
      | (tr, Inr x) \<Rightarrow> (case f x of (tr', r) \<Rightarrow> (tr @ tr', r)))"

definition emit :: "event \<Rightarrow> unit prog" where
  "emit ev = ([ev], Inr ())"

definition stop :: "outcome \<Rightarrow> 'a prog" where
  "stop out = ([], Inl out)"

definition raise_on :: "error + 'a \<Rightarrow> 'a prog" where
  "raise_on r = (case r of Inl e \<Rightarrow> ([], Inl (Raised e)) | Inr x \<Rightarrow> ([], Inr x))"

definition finish :: "unit prog \<Rightarrow> event list \<times> outcome" where
  "finish m = (case m of (tr, Inl out) \<Rightarrow> (tr, out) | (tr, Inr _) \<Rightarrow> (tr, Returned))"

definition ensure_git_repo :: "env \<Rightarrow> unit prog" where
  "ensure_git_repo e =
     (case rev_parse e of
        Completed \<Rightarrow> ([Git_rev_parse], Inr ())
      | Called_Process_Error \<Rightarrow> ([Git_rev_parse, Print_err Not_a_git_repo], Inl (Exit 1))
      | Not_Found \<Rightarrow> ([Git_rev_parse], Inl (Raised FileNotFoundError)))"

definition make_commit_for_date :: "env \<Rightarrow> date \<Rightarrow> commit_message \<Rightarrow> unit prog" where
  "make_commit_for_date e dt commit_msg =
     (case git_commit e dt commit_msg of
        Completed \<Rightarrow> ([Git_commit dt commit_msg], Inr ())
      | Called_Process_Error \<Rightarrow>
          ([Git_commit dt commit_msg, Print_err (Commit_failed dt)], Inl (Exit 1))
      | Not_Found \<Rightarrow> ([Git_commit dt commit_msg], Inl (Raised FileNotFoundError)))"

text \<open>Lines 148 to 163 of \<^verbatim>\<open>main\<close>: the start Sunday and the current week's Sunday.\<close>

definition resolve_start_sunday :: "env \<Rightarrow> args \<Rightarrow> nat \<Rightarrow> (date \<times> date) prog" where
  "resolve_start_sunday e a total_cols =
     (case get_sunday_of_week (today e) of
        Inl err \<Rightarrow> ([], Inl (Raised err))
      | Inr current_week_sunday \<Rightarrow>
          (case date_add_days current_week_sunday (- (7 * (int total_cols - 1))) of
             Inl err \<Rightarrow> ([], Inl (Raised err))
           | Inr default_start \<Rightarrow>
               (case start_sunday a of
                  None \<Rightarrow> ([], Inr (default_start, current_week_sunday))
                | Some s \<Rightarrow>
                    if s = [] then ([], Inr (default_start, current_week_sunday))
                    else
                      (case strptime e s of
                         None \<Rightarrow> ([Print_err Invalid_date_format], Inl (Exit 1))
                       | Some d \<Rightarrow>
                           if weekday d \<noteq> 6 then
                             (case get_sunday_of_week d of
                                Inl err \<Rightarrow> ([Print Warn_not_sunday], Inl (Raised err))
                              | Inr d' \<Rightarrow> ([Print Warn_not_sunday], Inr (d', current_week_sunday)))
                           else ([], Inr (d, current_week_sunday))))))"

text \<open>Lines 191 to 194: the commits of one date, and of all dates in order.\<close>

fun part_loop :: "env \<Rightarrow> date \<Rightarrow> int \<Rightarrow> nat list \<Rightarrow> unit prog" where
  "part_loop e d n [] = ([], Inr ())"
| "part_loop e d n (i # rest) =
     then_do (make_commit_for_date e d (Pixel_for_Pizza d (int i + 1) n))
       (\<lambda>_. part_loop e d n rest)"

fun commit_loop :: "env \<Rightarrow> int \<Rightarrow> date list \<Rightarrow> unit prog" where
  "commit_loop e n [] = ([], Inr ())"
| "commit_loop e n (d # ds) =
     then_do (part_loop e d n [0..<nat n]) (\<lambda>_. commit_loop e n ds)"

text \<open>\<^verbatim>\<open>str.lower\<close> on the letters A to Z.\<close>

definition str_lower :: "string \<Rightarrow> string" where
  "str_lower s =
     map (\<lambda>c. let n = (of_char c :: nat) in if 65 \<le> n \<and> n \<le> 90 then char_of (n + 32) else c) s"

text \<open>
  \<^verbatim>\<open>main\<close>, with the message as a parameter; the script runs it on \<^verbatim>\<open>MESSAGE\<close>.
\<close>

definition main_with :: "string \<Rightarrow> env \<Rightarrow> args \<Rightarrow> event list \<times> outcome" where
  "main_with msg e a =
     finish
      (then_do (ensure_git_repo e) (\<lambda>_.
       then_do (raise_on (build_bitmap msg 1)) (\<lambda>bitmap.
       then_do (raise_on (getitem bitmap 0)) (\<lambda>row0.
       let total_cols = length row0 in
       then_do (emit (Print (Bitmap_width total_cols))) (\<lambda>_.
       then_do (resolve_start_sunday e a total_cols) (\<lambda>(start, current_week_sunday).
       then_do (emit (Print (Start_sunday_is start))) (\<lambda>_.
       then_do (raise_on (date_add_days start (7 * (int total_cols - 1)))) (\<lambda>end_week.
       then_do (emit (Print (End_week_is end_week current_week_sunday))) (\<lambda>_.
       then_do (if dry_run a then emit (Print Dry_run_listing) else ([], Inr ())) (\<lambda>_.
       then_do (raise_on (pixel_dates bitmap total_cols start)) (\<lambda>commits_to_make.
       then_do (emit (Print (Totals (length commits_to_make) (commits_per_pixel a)
                  (int (length commits_to_make) * commits_per_pixel a)))) (\<lambda>_.
       if dry_run a then
         then_do (map (\<lambda>d. Print (Pixel_date d)) commits_to_make, Inr ()) (\<lambda>_.
         then_do (emit (Print Done_dry_run)) (\<lambda>_. stop Returned))
       else
         then_do (emit Prompt) (\<lambda>_.
         then_do (case stdin_line e of None \<Rightarrow> stop (Raised EOFError) | Some c \<Rightarrow> ([], Inr c))
           (\<lambda>confirm.
         if str_lower confirm \<noteq> ''y'' then
           then_do (emit (Print Aborted)) (\<lambda>_. stop Returned)
         else
           then_do (commit_loop e (commits_per_pixel a) commits_to_make) (\<lambda>_.
           emit (Print All_created))))))))))))))))"

definition main :: "env \<Rightarrow> args \<Rightarrow> event list \<times> outcome" where
  "main e a = main_with MESSAGE e a"

section \<open>Notions of the specification\<close>

text \<open>\<^verbatim>\<open>sep.join(parts)\<close>: the parts in order, with the separator between neighbours only.\<close>

fun joined :: "'a list \<Rightarrow> 'a list list \<Rightarrow> 'a list" where
  "joined sep [] = []"
| "joined sep [x] = x"
| "joined sep (x # y # ys) = x @ sep @ joined sep (y # ys)"

text \<open>Row \<open>r\<close> of the glyph of a character, and a message whose characters all have a glyph.\<close>

definition glyph_row :: "nat \<Rightarrow> char \<Rightarrow> string" where
  "glyph_row r ch = the (FONT_get ch) ! r"

definition supported :: "string \<Rightarrow> bool" where
  "supported message \<longleftrightarrow> (\<forall>ch \<in> set message. FONT_get ch \<noteq> None)"

text \<open>
  The bitmap as the specification words it: seven rows, each the glyph rows of the
  characters from left to right with \<open>gap\<close> off columns between neighbours.
\<close>

definition bitmap_spec :: "string \<Rightarrow> nat \<Rightarrow> string list" where
  "bitmap_spec message gap =
     map (\<lambda>r. joined (replicate gap (CHR ''0'')) (map (glyph_row r) message)) [0..<7]"

text \<open>Two characters that are equal or the two cases of one of the letters P, I, Z, A.\<close>

definition case_variant :: "char \<Rightarrow> char \<Rightarrow> bool" where
  "case_variant a b \<longleftrightarrow>
     a = b
     \<or> a = CHR ''p'' \<and> b = CHR ''P'' \<or> a = CHR ''P'' \<and> b = CHR ''p''
     \<or> a = CHR ''i'' \<and> b = CHR ''I'' \<or> a = CHR ''I'' \<and> b = CHR ''i''
     \<or> a = CHR ''z'' \<and> b = CHR ''Z'' \<or> a = CHR ''Z'' \<and> b = CHR ''z''
     \<or> a = CHR ''a'' \<and> b = CHR ''A'' \<or> a = CHR ''A'' \<and> b = CHR ''a''"

text \<open>
  The cell in row \<open>r\<close> and column \<open>c\<close> of a bitmap is on; a bitmap of seven rows of
  width \<open>W\<close>.
\<close>

definition pixel_on :: "string list \<Rightarrow> nat \<Rightarrow> nat \<Rightarrow> bool" where
  "pixel_on bitmap r c \<longleftrightarrow>
     r < length bitmap \<and> c < length (bitmap ! r) \<and> bitmap ! r ! c = CHR ''1''"

definition wf_bitmap :: "string list \<Rightarrow> nat \<Rightarrow> bool" where
  "wf_bitmap bitmap W \<longleftrightarrow> length bitmap = 7 \<and> (\<forall>row \<in> set bitmap. length row = W)"

text \<open>
  The dates of the on cells in column-major order: the cells are listed column by column
  from the left, each column from row 0 (Sunday) to row 6 (Saturday), and every on cell
  gives the date \<open>origin + c weeks + r days\<close>.
\<close>

definition column_major :: "string list \<Rightarrow> nat \<Rightarrow> date \<Rightarrow> date list" where
  "column_major bitmap W origin =
     map (\<lambda>(c, r). Date (toordinal origin + 7 * int c + int r))
       (filter (\<lambda>(c, r). pixel_on bitmap r c) (List.product [0..<W] [0..<7]))"

section \<open>The library's date parser on ASCII text\<close>

text \<open>
  \<^verbatim>\<open>datetime.datetime.strptime(s, "%Y-%m-%d").date()\<close> belongs to the Python library; the
  program model takes it from the environment.  For runs on concrete input the following
  function follows the library's pattern for this format on ASCII text: four digits, a
  dash, a month \<^verbatim>\<open>1[0-2]|0[1-9]|[1-9]\<close>, a dash, a day
  \<^verbatim>\<open>3[0-1]|[1-2]\d|0[1-9]|[1-9]| [1-9]\<close> and nothing after it; the year must be at least 1
  and the day must exist in the month.  \<open>None\<close> stands for \<^verbatim>\<open>ValueError\<close>.
\<close>

definition is_digit :: "char \<Rightarrow> bool" where
  "is_digit c \<longleftrightarrow> 48 \<le> (of_char c :: nat) \<and> (of_char c :: nat) \<le> 57"

definition digit_val :: "char \<Rightarrow> int" where
  "digit_val c = int (of_char c) - 48"

definition match_month :: "string \<Rightarrow> (int \<times> string) option" where
  "match_month s =
     (case s of
        a # b # c # r \<Rightarrow>
          if c = CHR ''-'' \<and> (a = CHR ''1'' \<and> b \<in> set ''012'' \<or> a = CHR ''0'' \<and> b \<in> set ''123456789'')
          then Some (10 * digit_val a + digit_val b, r)
          else if b = CHR ''-'' \<and> a \<in> set ''123456789'' then Some (digit_val a, c # r)
          else None
      | [a, b] \<Rightarrow> if b = CHR ''-'' \<and> a \<in> set ''123456789'' then Some (digit_val a, []) else None
      | _ \<Rightarrow> None)"

definition match_day :: "string \<Rightarrow> (int \<times> string) option" where
  "match_day s =
     (case s of
        a # b # r \<Rightarrow>
          if a = CHR ''3'' \<and> b \<in> set ''01'' \<or> a \<in> set ''12'' \<and> is_digit b
             \<or> a = CHR ''0'' \<and> b \<in> set ''123456789''
          then Some (10 * digit_val a + digit_val b, r)
          else if a \<in> set ''123456789'' then Some (digit_val a, b # r)
          else if a = CHR '' '' \<and> b \<in> set ''123456789'' then Some (digit_val b, r)
          else None
      | [a] \<Rightarrow> if a \<in> set ''123456789'' then Some (digit_val a, []) else None
      | [] \<Rightarrow> None)"

definition strptime_ymd :: "string \<Rightarrow> date option" where
  "strptime_ymd s =
     (case s of
        y1 # y2 # y3 # y4 # dash # rest \<Rightarrow>
          if is_digit y1 \<and> is_digit y2 \<and> is_digit y3 \<and> is_digit y4 \<and> dash = CHR ''-'' then
            (case match_month rest of
               None \<Rightarrow> None
             | Some (m, rest1) \<Rightarrow>
                 (case match_day rest1 of
                    None \<Rightarrow> None
                  | Some (d, rest2) \<Rightarrow>
                      let y = 1000 * digit_val y1 + 100 * digit_val y2 + 10 * digit_val y3
                                + digit_val y4
                      in if rest2 = [] \<and> 1 \<le> y \<and> d \<le> days_in_month y m
                         then Some (mk_date y m d) else None))
          else None
      | _ \<Rightarrow> None)"

text \<open>
  An environment for runs on concrete input: the current date is Wednesday 2024-01-10,
  the directory is a repository, the user answers \<open>y\<close> and every commit succeeds.
\<close>

definition example_env :: env where
  "example_env =
     \<lparr>today = mk_date 2024 1 10, rev_parse = Completed, strptime = strptime_ymd,
      stdin_line = Some ''y'', git_commit = (\<lambda>dt commit_msg. Completed)\<rparr>"

section \<open>The bitmap builder: proofs\<close>

lemma upt_7: "[0..<7] = [0, 1, 2, 3, 4, 5, 6::nat]"
  by (simp add: upt_rec)

lemma length_7_cases:
  assumes "length xs = 7"
  obtains a b c d e f g where "xs = [a, b, c, d, e, f, g]"
  using assms by (auto simp: length_Suc_conv eval_nat_numeral)

lemma add_pattern_eq:
  assumes "length rows = 7"
  shows "add_pattern rows pattern = map (\<lambda>r. rows ! r @ pattern ! r) [0..<7]"
proof -
  obtain a b c d e f g where "rows = [a, b, c, d, e, f, g]"
    using assms by (rule length_7_cases)
  then show ?thesis
    by (simp add: add_pattern_def upt_7)
qed

lemma add_gap_eq:
  assumes "length rows = 7"
  shows "add_gap rows gap = map (\<lambda>r. rows ! r @ replicate (nat gap) (CHR ''0'')) [0..<7]"
proof -
  obtain a b c d e f g where "rows = [a, b, c, d, e, f, g]"
    using assms by (rule length_7_cases)
  then show ?thesis
    by (simp add: add_gap_def upt_7)
qed

lemma FONT_get_shape:
  assumes "FONT_get ch = Some p"
  shows "length p = 7 \<and> (\<forall>row \<in> set p. length row = 5)"
  using assms
  by (auto simp: FONT_get_def FONT_def FONT_literal_def Let_def split: if_splits)

lemma length_glyph_row:
  assumes "FONT_get ch \<noteq> None" and "r < 7"
  shows "length (glyph_row r ch) = 5"
proof -
  from assms(1) obtain p where p: "FONT_get ch = Some p" by auto
  from FONT_get_shape [OF p] assms(2) show ?thesis
    by (simp add: glyph_row_def p)
qed

lemma joined_Cons:
  "joined sep (x # xs) = x @ concat (map (\<lambda>y. sep @ y) xs)"
  by (induction xs arbitrary: x) auto

lemma length_joined_const:
  assumes "\<forall>x \<in> set xs. length x = w" and "xs \<noteq> []"
  shows "int (length (joined sep xs)) =
           int w * int (length xs) + int (length sep) * (int (length xs) - 1)"
  using assms
proof (induction sep xs rule: joined.induct)
  case (3 sep x y ys)
  then show ?case by (simp add: algebra_simps)
qed auto

lemma build_loop_rest:
  assumes "length rows = 7" and "supported message"
  shows "build_loop message gap False rows =
           Inr (map (\<lambda>r. rows ! r @
                  concat (map (\<lambda>ch. replicate (nat gap) (CHR ''0'') @ glyph_row r ch) message))
                [0..<7])"
  using assms
proof (induction message arbitrary: rows)
  case Nil
  then show ?case using map_nth [of rows] by simp
next
  case (Cons ch message)
  from Cons.prems obtain p where p: "FONT_get ch = Some p"
    by (auto simp: supported_def)
  have sup: "supported message"
    using Cons.prems by (simp add: supported_def)
  let ?rows1 = "add_pattern (add_gap rows gap) p"
  have len: "length ?rows1 = 7"
    by (simp add: add_pattern_eq add_gap_eq Cons.prems)
  have nth: "?rows1 ! r = rows ! r @ replicate (nat gap) (CHR ''0'') @ glyph_row r ch"
    if "r < 7" for r
    using that by (simp add: add_pattern_eq add_gap_eq Cons.prems glyph_row_def p)
  show ?case
    using Cons.IH [OF len sup] by (simp add: p nth)
qed

lemma build_bitmap_spec:
  assumes "supported message"
  shows "build_bitmap message gap = Inr (bitmap_spec message (nat gap))"
proof (cases message)
  case Nil
  then show ?thesis
    by (simp add: build_bitmap_def bitmap_spec_def upt_7 eval_nat_numeral)
next
  case (Cons ch rest)
  from assms Cons obtain p where p: "FONT_get ch = Some p"
    by (auto simp: supported_def)
  have sup: "supported rest"
    using assms Cons by (simp add: supported_def)
  let ?rows1 = "add_pattern (replicate 7 []) p"
  have len: "length ?rows1 = 7"
    by (simp add: add_pattern_eq)
  have nth: "?rows1 ! r = glyph_row r ch" if "r < 7" for r
    using that by (simp add: add_pattern_eq glyph_row_def p)
  show ?thesis
    using build_loop_rest [OF len sup, of gap]
    by (simp add: Cons build_bitmap_def p bitmap_spec_def joined_Cons nth comp_def)
qed

lemma build_loop_fails_iff:
  "(\<exists>e. build_loop message gap first rows = Inl e) \<longleftrightarrow> \<not> supported message"
  by (induction message arbitrary: first rows)
     (auto simp: supported_def Let_def split: option.splits)

lemma build_loop_error:
  "build_loop message gap first rows = Inl e \<Longrightarrow>
     \<exists>ch \<in> set message. FONT_get ch = None \<and>
        e = ValueError (''No font pattern for character: '' @ [ch])"
  by (induction message arbitrary: first rows)
     (auto simp: Let_def split: option.splits)

lemma supported_Pizza: "supported ''Pizza!''"
  by (simp add: supported_def FONT_get_def FONT_def FONT_literal_def Let_def)

lemma FONT_get_lower:
  "FONT_get (CHR ''p'') = FONT_get (CHR ''P'')"
  "FONT_get (CHR ''i'') = FONT_get (CHR ''I'')"
  "FONT_get (CHR ''z'') = FONT_get (CHR ''Z'')"
  "FONT_get (CHR ''a'') = FONT_get (CHR ''A'')"
  by (simp_all add: FONT_get_def FONT_def FONT_literal_def Let_def)

lemma FONT_get_letters:
  "FONT_get (CHR ''P'') \<noteq> None" "FONT_get (CHR ''I'') \<noteq> None"
  "FONT_get (CHR ''Z'') \<noteq> None" "FONT_get (CHR ''A'') \<noteq> None"
  by (simp_all add: FONT_get_def FONT_def FONT_literal_def Let_def)

lemma case_variant_FONT_get:
  assumes "case_variant a b"
  shows "FONT_get a = FONT_get b \<and> (FONT_get a = None \<longrightarrow> a = b)"
  using assms unfolding case_variant_def
  by (elim disjE conjE) (simp_all add: FONT_get_lower FONT_get_letters)

lemma build_loop_case_variant:
  "list_all2 case_variant m1 m2 \<Longrightarrow> build_loop m1 gap first rows = build_loop m2 gap first rows"
proof (induction m1 m2 arbitrary: first rows rule: list_all2_induct)
  case Nil
  then show ?case by simp
next
  case (Cons a m1 b m2)
  from case_variant_FONT_get [OF Cons.hyps(1)]
  have eq: "FONT_get a = FONT_get b" and same: "FONT_get a = None \<longrightarrow> a = b"
    by blast+
  show ?case
  proof (cases "FONT_get a")
    case None
    with same have ab: "a = b" by blast
    from None show ?thesis unfolding ab by simp
  next
    case (Some p)
    with eq have b: "FONT_get b = Some p" by metis
    show ?thesis
      by (simp only: build_loop.simps Let_def Some b option.case Cons.IH)
  qed
qed

text \<open>
  C4, as amended.  For every message whose characters all have a font entry the builder
  returns seven rows; row \<open>r\<close> is the five-column glyph rows of the characters from left
  to right, joined by one off column between neighbours and nothing before or after.
  For a message that is not empty every row has length
  \<open>5 * len(message) + (len(message) - 1)\<close>.
\<close>

theorem build_bitmap_layout:
  assumes "supported message"
  shows "\<exists>rows. build_bitmap message 1 = Inr rows \<and> length rows = 7 \<and>
           (\<forall>r < 7. rows ! r = joined ''0'' (map (glyph_row r) message)) \<and>
           (\<forall>r < 7. \<forall>ch \<in> set message. length (glyph_row r ch) = 5) \<and>
           (message \<noteq> [] \<longrightarrow>
              (\<forall>row \<in> set rows.
                 int (length row) = 5 * int (length message) + (int (length message) - 1)))"
proof -
  let ?rows = "bitmap_spec message 1"
  have built: "build_bitmap message 1 = Inr ?rows"
    using build_bitmap_spec [OF assms, of 1] by simp
  have len: "length ?rows = 7"
    by (simp add: bitmap_spec_def)
  have nth: "\<forall>r < 7. ?rows ! r = joined ''0'' (map (glyph_row r) message)"
    by (simp add: bitmap_spec_def)
  have glyph: "\<forall>r < 7. \<forall>ch \<in> set message. length (glyph_row r ch) = 5"
    using assms by (simp add: supported_def length_glyph_row)
  have width: "\<forall>row \<in> set ?rows.
      int (length row) = 5 * int (length message) + (int (length message) - 1)"
    if ne: "message \<noteq> []"
  proof
    fix row assume "row \<in> set ?rows"
    then obtain r where r: "r < 7" and row: "row = joined ''0'' (map (glyph_row r) message)"
      by (auto simp: bitmap_spec_def)
    have "\<forall>x \<in> set (map (glyph_row r) message). length x = 5"
      using glyph r by simp
    from length_joined_const [OF this, of "''0''"] ne
    show "int (length row) = 5 * int (length message) + (int (length message) - 1)"
      by (simp add: row)
  qed
  from built len nth glyph width show ?thesis
    by blast
qed

theorem build_bitmap_layout_witness:
  "supported ''Pizza!'' \<and>
   (\<exists>rows. build_bitmap ''Pizza!'' 1 = Inr rows \<and> length rows = 7 \<and>
      (\<forall>row \<in> set rows. length row = 35))"
proof -
  from build_bitmap_layout [OF supported_Pizza]
  obtain rows where "build_bitmap ''Pizza!'' 1 = Inr rows" and "length rows = 7"
    and "\<forall>row \<in> set rows.
           int (length row) = 5 * int (length ''Pizza!'') + (int (length ''Pizza!'') - 1)"
    by auto
  then show ?thesis
    using supported_Pizza by auto
qed

text \<open>
  The claim C4 as stated fails on the empty message: all of its (zero) characters have a
  font entry, the builder returns seven empty rows, and the claimed length is \<open>-1\<close>.
\<close>

theorem build_bitmap_empty_counterexample:
  "supported [] \<and> build_bitmap [] 1 = Inr [[], [], [], [], [], [], []] \<and>
   int (length ([] :: string)) \<noteq> 5 * int (length ([] :: string)) + (int (length ([] :: string)) - 1)"
  by (simp add: supported_def build_bitmap_def eval_nat_numeral)

text \<open>
  C9.  Two messages that differ only in the case of letters among P, I, Z, A (at any
  positions) give the same result of the bitmap builder, for every gap.
\<close>

theorem build_bitmap_case_variant:
  assumes "list_all2 case_variant m1 m2"
  shows "build_bitmap m1 gap = build_bitmap m2 gap"
  unfolding build_bitmap_def using assms by (rule build_loop_case_variant)

theorem build_bitmap_case_variant_witness:
  "list_all2 case_variant ''Pizza!'' ''pIZzA!'' \<and>
   build_bitmap ''Pizza!'' 1 = build_bitmap ''pIZzA!'' 1"
proof -
  have rel: "list_all2 case_variant ''Pizza!'' ''pIZzA!''"
    by (simp add: case_variant_def)
  from build_bitmap_case_variant [OF rel, of 1] rel show ?thesis
    by simp
qed

section \<open>The date mapper: proofs\<close>

lemma row_loop_Inr:
  "row_loop bitmap ws col rs acc = Inr acc' \<Longrightarrow>
     acc' = acc @ map (\<lambda>r. Date (toordinal ws + int r)) (filter (\<lambda>r. pixel_on bitmap r col) rs)"
proof (induction rs arbitrary: acc)
  case Nil
  then show ?case by simp
next
  case (Cons r rs)
  from Cons.prems have r: "r < length bitmap" and c: "col < length (bitmap ! r)"
    by (auto simp: getitem_def split: if_splits)
  show ?case
  proof (cases "bitmap ! r ! col = CHR ''1''")
    case True
    with Cons.prems r c
    have "row_loop bitmap ws col rs (acc @ [Date (toordinal ws + int r)]) = Inr acc'"
      by (auto simp: getitem_def date_add_days_def Let_def split: if_splits)
    from Cons.IH [OF this] True r c show ?thesis
      by (simp add: pixel_on_def)
  next
    case False
    with Cons.prems r c have "row_loop bitmap ws col rs acc = Inr acc'"
      by (simp add: getitem_def)
    from Cons.IH [OF this] False show ?thesis
      by (simp add: pixel_on_def)
  qed
qed

lemma row_loop_total:
  assumes "\<forall>r \<in> set rs. r < length bitmap \<and> col < length (bitmap ! r)"
    and "\<forall>r \<in> set rs. 0 < toordinal ws + int r \<and> toordinal ws + int r \<le> MAXORDINAL"
  shows "\<exists>acc'. row_loop bitmap ws col rs acc = Inr acc'"
  using assms
  by (induction rs arbitrary: acc) (auto simp: getitem_def date_add_days_def Let_def)

lemma col_loop_Inr:
  "col_loop bitmap start cs acc = Inr acc' \<Longrightarrow>
     acc' = acc @ concat (map (\<lambda>c. map (\<lambda>r. Date (toordinal start + 7 * int c + int r))
                                    (filter (\<lambda>r. pixel_on bitmap r c) [0..<7])) cs)"
proof (induction cs arbitrary: acc)
  case Nil
  then show ?case by simp
next
  case (Cons c cs)
  from Cons.prems obtain ws mid where
    ws: "date_add_days start (7 * int c) = Inr ws"
    and mid: "row_loop bitmap ws c [0..<7] acc = Inr mid"
    and rest: "col_loop bitmap start cs mid = Inr acc'"
    by (auto split: sum.splits)
  from ws have ord: "toordinal ws = toordinal start + 7 * int c"
    by (auto simp: date_add_days_def Let_def split: if_splits)
  from row_loop_Inr [OF mid] Cons.IH [OF rest] ord show ?case
    by simp
qed

lemma col_loop_total:
  assumes "wf_bitmap bitmap W" and "\<forall>c \<in> set cs. c < W"
    and "0 < toordinal start" and "toordinal start + 7 * int W - 1 \<le> MAXORDINAL"
  shows "\<exists>acc'. col_loop bitmap start cs acc = Inr acc'"
  using assms(2)
proof (induction cs arbitrary: acc)
  case Nil
  then show ?case by simp
next
  case (Cons c cs)
  then have c: "c < W" by simp
  let ?ws = "Date (toordinal start + 7 * int c)"
  have ws: "date_add_days start (7 * int c) = Inr ?ws"
    using c assms(3,4) by (simp add: date_add_days_def Let_def)
  have "\<exists>mid. row_loop bitmap ?ws c [0..<7] acc = Inr mid"
  proof (rule row_loop_total)
    show "\<forall>r \<in> set [0..<7]. r < length bitmap \<and> c < length (bitmap ! r)"
      using assms(1) c by (simp add: wf_bitmap_def)
    show "\<forall>r \<in> set [0..<7]. 0 < toordinal ?ws + int r \<and> toordinal ?ws + int r \<le> MAXORDINAL"
      using c assms(3,4) by auto
  qed
  then obtain mid where mid: "row_loop bitmap ?ws c [0..<7] acc = Inr mid" ..
  from Cons have "\<exists>acc'. col_loop bitmap start cs mid = Inr acc'" by simp
  with ws mid show ?case by simp
qed

lemma column_major_concat:
  "column_major bitmap W origin =
     concat (map (\<lambda>c. map (\<lambda>r. Date (toordinal origin + 7 * int c + int r))
                       (filter (\<lambda>r. pixel_on bitmap r c) [0..<7])) [0..<W])"
  unfolding column_major_def product_concat_map
  by (simp add: filter_concat map_concat comp_def filter_map)

lemma pixel_dates_Inr:
  "pixel_dates bitmap W origin = Inr ds \<Longrightarrow> ds = column_major bitmap W origin"
  unfolding pixel_dates_def column_major_concat
  by (drule col_loop_Inr) simp

lemma pixel_dates_total:
  assumes "wf_bitmap bitmap W" and "0 < toordinal origin"
    and "toordinal origin + 7 * int W - 1 \<le> MAXORDINAL"
  shows "pixel_dates bitmap W origin = Inr (column_major bitmap W origin)"
proof -
  have "\<forall>c \<in> set [0..<W]. c < W" by simp
  from col_loop_total [OF assms(1) this assms(2,3), of "[]"]
  obtain ds where "pixel_dates bitmap W origin = Inr ds"
    by (auto simp: pixel_dates_def)
  with pixel_dates_Inr show ?thesis by blast
qed

lemma sorted_cells:
  "sorted_wrt (\<lambda>x y. 7 * fst x + snd x < 7 * fst y + snd y) (List.product [0..<W] [0..<7])"
proof (induction W)
  case 0
  then show ?case by simp
next
  case (Suc W)
  have split: "List.product [0..<Suc W] [0..<7] = List.product [0..<W] [0..<7] @ map (Pair W) [0..<7]"
    by (simp add: product_concat_map)
  have last: "sorted_wrt (\<lambda>x y. 7 * fst x + snd x < 7 * fst y + snd y) (map (Pair W) [0..<7])"
    by (simp add: sorted_wrt_map)
  have cross: "\<forall>x \<in> set (List.product [0..<W] [0..<7]). \<forall>y \<in> set (map (Pair W) [0..<7]).
                 7 * fst x + snd x < 7 * fst y + snd y"
    by auto
  show ?case
    unfolding split sorted_wrt_append using Suc last cross by blast
qed

lemma column_major_sorted:
  "sorted_wrt (\<lambda>a b. toordinal a < toordinal b) (column_major bitmap W origin)"
proof -
  have "sorted_wrt (\<lambda>x y. 7 * fst x + snd x < 7 * fst y + snd y)
          (filter (\<lambda>(c, r). pixel_on bitmap r c) (List.product [0..<W] [0..<7]))"
    by (rule sorted_wrt_filter) (rule sorted_cells)
  then have "sorted_wrt (\<lambda>x y. toordinal origin + 7 * int (fst x) + int (snd x)
                               < toordinal origin + 7 * int (fst y) + int (snd y))
          (filter (\<lambda>(c, r). pixel_on bitmap r c) (List.product [0..<W] [0..<7]))"
    by (rule sorted_wrt_mono_rel [rotated]) simp
  then show ?thesis
    unfolding column_major_def sorted_wrt_map
    by (simp add: case_prod_beta)
qed

lemma set_column_major:
  "set (column_major bitmap W origin) =
     {Date (toordinal origin + 7 * int c + int r) | c r. c < W \<and> r < 7 \<and> pixel_on bitmap r c}"
  unfolding column_major_def by force

lemma sorted_wrt_less_distinct:
  "sorted_wrt (\<lambda>a b. toordinal a < toordinal b) ds \<Longrightarrow> distinct ds"
  by (induction ds) auto

lemma bitmap_A:
  "build_bitmap ''A'' 1 =
     Inr [''01110'', ''10001'', ''10001'', ''11111'', ''10001'', ''10001'', ''10001'']"
  by code_simp

lemma wf_bitmap_A:
  "wf_bitmap [''01110'', ''10001'', ''10001'', ''11111'', ''10001'', ''10001'', ''10001''] 5"
  by (simp add: wf_bitmap_def)

lemma pixel_dates_A:
  "pixel_dates [''01110'', ''10001'', ''10001'', ''11111'', ''10001'', ''10001'', ''10001''] 5
     (Date 738892) =
   Inr (map Date [738893, 738894, 738895, 738896, 738897, 738898, 738899, 738902, 738906,
          738909, 738913, 738916, 738921, 738922, 738923, 738924, 738925, 738926])"
  by code_simp

lemma length_column_major:
  "length (column_major bitmap W origin) = card {(c, r). c < W \<and> r < 7 \<and> pixel_on bitmap r c}"
proof -
  have d: "distinct (List.product [0..<W] [0..<7])"
    by (simp add: distinct_product)
  have "{x. (case x of (c, r) \<Rightarrow> pixel_on bitmap r c)} \<inter> set (List.product [0..<W] [0..<7]) =
        {(c, r). c < W \<and> r < 7 \<and> pixel_on bitmap r c}"
    by auto
  with distinct_length_filter [OF d, of "\<lambda>(c, r). pixel_on bitmap r c"]
  show ?thesis
    by (simp add: column_major_def)
qed

text \<open>
  C1.  Whenever the date mapper returns a list of dates, for a bitmap and an origin, the
  set of these dates is exactly \<open>{origin + c weeks + r days | cell (r, c) is on}\<close>, and for
  every returned date \<open>d\<close> the offsets \<open>(d - origin) div 7\<close> and \<open>(d - origin) mod 7\<close> are
  the column and the row of an on cell.  It returns a list for every bitmap of seven rows
  of width \<open>W\<close> and every origin such that the grid fits in the calendar.
\<close>

theorem pixel_dates_set:
  "(wf_bitmap bitmap W \<and> valid_date origin \<and> toordinal origin + 7 * int W - 1 \<le> MAXORDINAL
      \<longrightarrow> (\<exists>ds. pixel_dates bitmap W origin = Inr ds)) \<and>
   (\<forall>ds. pixel_dates bitmap W origin = Inr ds \<longrightarrow>
      set ds = {Date (toordinal origin + 7 * int c + int r) | c r.
                  c < W \<and> r < 7 \<and> pixel_on bitmap r c} \<and>
      (\<forall>d \<in> set ds.
         0 \<le> toordinal d - toordinal origin \<and>
         nat ((toordinal d - toordinal origin) div 7) < W \<and>
         pixel_on bitmap (nat ((toordinal d - toordinal origin) mod 7))
                         (nat ((toordinal d - toordinal origin) div 7))))"
proof (intro conjI impI allI)
  assume "wf_bitmap bitmap W \<and> valid_date origin \<and>
          toordinal origin + 7 * int W - 1 \<le> MAXORDINAL"
  then have "pixel_dates bitmap W origin = Inr (column_major bitmap W origin)"
    by (intro pixel_dates_total) (simp_all add: valid_date_def)
  then show "\<exists>ds. pixel_dates bitmap W origin = Inr ds" ..
next
  fix ds assume "pixel_dates bitmap W origin = Inr ds"
  then have ds: "ds = column_major bitmap W origin"
    by (rule pixel_dates_Inr)
  then show "set ds = {Date (toordinal origin + 7 * int c + int r) | c r.
                  c < W \<and> r < 7 \<and> pixel_on bitmap r c}"
    by (simp add: set_column_major)
  show "\<forall>d \<in> set ds.
         0 \<le> toordinal d - toordinal origin \<and>
         nat ((toordinal d - toordinal origin) div 7) < W \<and>
         pixel_on bitmap (nat ((toordinal d - toordinal origin) mod 7))
                         (nat ((toordinal d - toordinal origin) div 7))"
  proof
    fix d assume "d \<in> set ds"
    then obtain c r where d: "d = Date (toordinal origin + 7 * int c + int r)"
      and c: "c < W" and r: "r < 7" and px: "pixel_on bitmap r c"
      unfolding ds set_column_major by blast
    have k: "toordinal d - toordinal origin = 7 * int c + int r"
      by (simp add: d)
    have "(7 * int c + int r) div 7 = int c" and "(7 * int c + int r) mod 7 = int r"
      using r by simp_all
    with k c px show "0 \<le> toordinal d - toordinal origin \<and>
         nat ((toordinal d - toordinal origin) div 7) < W \<and>
         pixel_on bitmap (nat ((toordinal d - toordinal origin) mod 7))
                         (nat ((toordinal d - toordinal origin) div 7))"
      by simp
  qed
qed

theorem pixel_dates_set_witness:
  "wf_bitmap [''01110'', ''10001'', ''10001'', ''11111'', ''10001'', ''10001'', ''10001''] 5 \<and>
   valid_date (Date 738892) \<and> toordinal (Date 738892) + 7 * int 5 - 1 \<le> MAXORDINAL \<and>
   (\<exists>ds. pixel_dates [''01110'', ''10001'', ''10001'', ''11111'', ''10001'', ''10001'', ''10001''] 5
            (Date 738892) = Inr ds \<and>
          (\<forall>d \<in> set ds. 0 \<le> toordinal d - toordinal (Date 738892)))"
proof -
  let ?bm = "[''01110'', ''10001'', ''10001'', ''11111'', ''10001'', ''10001'', ''10001'']"
  have v: "valid_date (Date 738892)"
    by (simp add: valid_date_def MAXORDINAL_def)
  have f: "toordinal (Date 738892) + 7 * int 5 - 1 \<le> MAXORDINAL"
    by (simp add: MAXORDINAL_def)
  note inst = pixel_dates_set [of ?bm 5 "Date 738892"]
  from inst [THEN conjunct1] wf_bitmap_A v f
  obtain ds where ds: "pixel_dates ?bm 5 (Date 738892) = Inr ds"
    by blast
  from inst [THEN conjunct2, THEN spec, THEN mp, OF ds]
  have "\<forall>d \<in> set ds. 0 \<le> toordinal d - toordinal (Date 738892)"
    by blast
  with ds wf_bitmap_A v f show ?thesis
    by blast
qed

text \<open>
  C8.  Whenever the date mapper returns a list of dates it is the list of the on cells'
  dates in column-major order (columns from the left, each column from row 0 to row 6),
  with one entry for each on cell; it returns this list for every bitmap of seven rows of
  width \<open>W\<close> and every origin such that the grid fits in the calendar.  The result is a
  function of the bitmap and the origin.
\<close>

theorem pixel_dates_column_major:
  "(wf_bitmap bitmap W \<and> valid_date origin \<and> toordinal origin + 7 * int W - 1 \<le> MAXORDINAL
      \<longrightarrow> pixel_dates bitmap W origin = Inr (column_major bitmap W origin)) \<and>
   (\<forall>ds. pixel_dates bitmap W origin = Inr ds \<longrightarrow> ds = column_major bitmap W origin) \<and>
   length (column_major bitmap W origin) =
     card {(c, r). c < W \<and> r < 7 \<and> pixel_on bitmap r c}"
proof (intro conjI impI allI)
  assume "wf_bitmap bitmap W \<and> valid_date origin \<and>
          toordinal origin + 7 * int W - 1 \<le> MAXORDINAL"
  then show "pixel_dates bitmap W origin = Inr (column_major bitmap W origin)"
    by (intro pixel_dates_total) (simp_all add: valid_date_def)
next
  fix ds assume "pixel_dates bitmap W origin = Inr ds"
  then show "ds = column_major bitmap W origin"
    by (rule pixel_dates_Inr)
next
  show "length (column_major bitmap W origin) =
          card {(c, r). c < W \<and> r < 7 \<and> pixel_on bitmap r c}"
    by (rule length_column_major)
qed

theorem pixel_dates_column_major_witness:
  "wf_bitmap [''01110'', ''10001'', ''10001'', ''11111'', ''10001'', ''10001'', ''10001''] 5 \<and>
   valid_date (Date 738892) \<and> toordinal (Date 738892) + 7 * int 5 - 1 \<le> MAXORDINAL \<and>
   column_major [''01110'', ''10001'', ''10001'', ''11111'', ''10001'', ''10001'', ''10001''] 5
     (Date 738892) =
   map Date [738893, 738894, 738895, 738896, 738897, 738898, 738899, 738902, 738906,
          738909, 738913, 738916, 738921, 738922, 738923, 738924, 738925, 738926]"
proof -
  let ?bm = "[''01110'', ''10001'', ''10001'', ''11111'', ''10001'', ''10001'', ''10001'']"
  have v: "valid_date (Date 738892)"
    by (simp add: valid_date_def MAXORDINAL_def)
  have f: "toordinal (Date 738892) + 7 * int 5 - 1 \<le> MAXORDINAL"
    by (simp add: MAXORDINAL_def)
  note inst = pixel_dates_column_major [of ?bm 5 "Date 738892"]
  from inst [THEN conjunct1] wf_bitmap_A v f
  have "pixel_dates ?bm 5 (Date 738892) = Inr (column_major ?bm 5 (Date 738892))"
    by blast
  then have "column_major ?bm 5 (Date 738892) =
      map Date [738893, 738894, 738895, 738896, 738897, 738898, 738899, 738902, 738906,
          738909, 738913, 738916, 738921, 738922, 738923, 738924, 738925, 738926]"
    unfolding pixel_dates_A by (simp only: sum.inject)
  with wf_bitmap_A v f show ?thesis
    by blast
qed

text \<open>
  C10.  Whenever the date mapper returns a list of dates, for any bitmap, width and
  origin, the list is strictly increasing in time, so no date occurs twice.
\<close>

theorem pixel_dates_strictly_increasing:
  assumes "pixel_dates bitmap W origin = Inr ds"
  shows "sorted_wrt (\<lambda>a b. toordinal a < toordinal b) ds \<and> distinct ds"
proof -
  from assms have "ds = column_major bitmap W origin"
    by (rule pixel_dates_Inr)
  then have "sorted_wrt (\<lambda>a b. toordinal a < toordinal b) ds"
    by (simp add: column_major_sorted)
  then show ?thesis
    by (simp add: sorted_wrt_less_distinct)
qed

theorem pixel_dates_strictly_increasing_witness:
  "pixel_dates [''01110'', ''10001'', ''10001'', ''11111'', ''10001'', ''10001'', ''10001''] 5
     (Date 738892) =
   Inr (map Date [738893, 738894, 738895, 738896, 738897, 738898, 738899, 738902, 738906,
          738909, 738913, 738916, 738921, 738922, 738923, 738924, 738925, 738926]) \<and>
   sorted_wrt (\<lambda>a b. toordinal a < toordinal b)
     (map Date [738893, 738894, 738895, 738896, 738897, 738898, 738899, 738902, 738906,
          738909, 738913, 738916, 738921, 738922, 738923, 738924, 738925, 738926])"
  using pixel_dates_strictly_increasing [OF pixel_dates_A] pixel_dates_A by blast

lemma pixel_dates_A_2024:
  "pixel_dates [''01110'', ''10001'', ''10001'', ''11111'', ''10001'', ''10001'', ''10001''] 5
     (mk_date 2024 1 7) =
   Inr [mk_date 2024 1 8, mk_date 2024 1 9, mk_date 2024 1 10, mk_date 2024 1 11,
        mk_date 2024 1 12, mk_date 2024 1 13, mk_date 2024 1 14, mk_date 2024 1 17,
        mk_date 2024 1 21, mk_date 2024 1 24, mk_date 2024 1 28, mk_date 2024 1 31,
        mk_date 2024 2 5, mk_date 2024 2 6, mk_date 2024 2 7, mk_date 2024 2 8,
        mk_date 2024 2 9, mk_date 2024 2 10]"
  by code_simp

lemma pixel_on_wf:
  assumes "wf_bitmap bitmap W" and "r < 7" and "c < W"
  shows "pixel_on bitmap r c \<longleftrightarrow> bitmap ! r ! c = CHR ''1''"
  using assms by (simp add: pixel_on_def wf_bitmap_def)

lemma origin_2024: "weekday (mk_date 2024 1 7) = 6"
  by code_simp

lemma not_two_dates:
  "mk_date 2024 1 10 \<notin> {mk_date 2024 1 8, mk_date 2024 1 9}"
  by code_simp

text \<open>
  C7, as amended.  For the message \<open>A\<close>, whose bitmap is the five-column pattern itself,
  and the origin Sunday 2024-01-07, the date mapper returns the eighteen dates
  2024-01-08 to 2024-01-13, 2024-01-14, 2024-01-17, 2024-01-21, 2024-01-24, 2024-01-28,
  2024-01-31 and 2024-02-05 to 2024-02-10, and their set is
  \<open>{origin + c weeks + r days | the pattern has 1 in row r and column c}\<close>.
\<close>

theorem message_A_dates:
  "weekday (mk_date 2024 1 7) = 6 \<and>
   build_bitmap ''A'' 1 =
     Inr [''01110'', ''10001'', ''10001'', ''11111'', ''10001'', ''10001'', ''10001''] \<and>
   pixel_dates [''01110'', ''10001'', ''10001'', ''11111'', ''10001'', ''10001'', ''10001''] 5
     (mk_date 2024 1 7) =
     Inr [mk_date 2024 1 8, mk_date 2024 1 9, mk_date 2024 1 10, mk_date 2024 1 11,
          mk_date 2024 1 12, mk_date 2024 1 13, mk_date 2024 1 14, mk_date 2024 1 17,
          mk_date 2024 1 21, mk_date 2024 1 24, mk_date 2024 1 28, mk_date 2024 1 31,
          mk_date 2024 2 5, mk_date 2024 2 6, mk_date 2024 2 7, mk_date 2024 2 8,
          mk_date 2024 2 9, mk_date 2024 2 10] \<and>
   set [mk_date 2024 1 8, mk_date 2024 1 9, mk_date 2024 1 10, mk_date 2024 1 11,
        mk_date 2024 1 12, mk_date 2024 1 13, mk_date 2024 1 14, mk_date 2024 1 17,
        mk_date 2024 1 21, mk_date 2024 1 24, mk_date 2024 1 28, mk_date 2024 1 31,
        mk_date 2024 2 5, mk_date 2024 2 6, mk_date 2024 2 7, mk_date 2024 2 8,
        mk_date 2024 2 9, mk_date 2024 2 10] =
     {Date (toordinal (mk_date 2024 1 7) + 7 * int c + int r) | c r.
        c < 5 \<and> r < 7 \<and>
        [''01110'', ''10001'', ''10001'', ''11111'', ''10001'', ''10001'', ''10001''] ! r ! c
          = CHR ''1''}"
proof -
  let ?bm = "[''01110'', ''10001'', ''10001'', ''11111'', ''10001'', ''10001'', ''10001'']"
  have px: "pixel_on ?bm r c \<longleftrightarrow> ?bm ! r ! c = CHR ''1''" if "r < 7" "c < 5" for r c
    using that by (intro pixel_on_wf [OF wf_bitmap_A]) simp_all
  have "set (column_major ?bm 5 (mk_date 2024 1 7)) =
          {Date (toordinal (mk_date 2024 1 7) + 7 * int c + int r) | c r.
             c < 5 \<and> r < 7 \<and> ?bm ! r ! c = CHR ''1''}"
    unfolding set_column_major using px by blast
  with pixel_dates_Inr [OF pixel_dates_A_2024] origin_2024 bitmap_A pixel_dates_A_2024
  show ?thesis by presburger
qed

text \<open>
  The claim C7 as stated fails: the dates emitted for the message \<open>A\<close> at the origin
  2024-01-07 are not the two dates 2024-01-08 and 2024-01-09 (2024-01-10 is emitted too).
\<close>

theorem message_A_dates_counterexample:
  "pixel_dates [''01110'', ''10001'', ''10001'', ''11111'', ''10001'', ''10001'', ''10001''] 5
     (mk_date 2024 1 7) =
     Inr [mk_date 2024 1 8, mk_date 2024 1 9, mk_date 2024 1 10, mk_date 2024 1 11,
          mk_date 2024 1 12, mk_date 2024 1 13, mk_date 2024 1 14, mk_date 2024 1 17,
          mk_date 2024 1 21, mk_date 2024 1 24, mk_date 2024 1 28, mk_date 2024 1 31,
          mk_date 2024 2 5, mk_date 2024 2 6, mk_date 2024 2 7, mk_date 2024 2 8,
          mk_date 2024 2 9, mk_date 2024 2 10] \<and>
   set [mk_date 2024 1 8, mk_date 2024 1 9, mk_date 2024 1 10, mk_date 2024 1 11,
        mk_date 2024 1 12, mk_date 2024 1 13, mk_date 2024 1 14, mk_date 2024 1 17,
        mk_date 2024 1 21, mk_date 2024 1 24, mk_date 2024 1 28, mk_date 2024 1 31,
        mk_date 2024 2 5, mk_date 2024 2 6, mk_date 2024 2 7, mk_date 2024 2 8,
        mk_date 2024 2 9, mk_date 2024 2 10] \<noteq> {mk_date 2024 1 8, mk_date 2024 1 9}"
proof -
  have "mk_date 2024 1 10 \<in> set [mk_date 2024 1 8, mk_date 2024 1 9, mk_date 2024 1 10, mk_date 2024 1 11,
        mk_date 2024 1 12, mk_date 2024 1 13, mk_date 2024 1 14, mk_date 2024 1 17,
        mk_date 2024 1 21, mk_date 2024 1 24, mk_date 2024 1 28, mk_date 2024 1 31,
        mk_date 2024 2 5, mk_date 2024 2 6, mk_date 2024 2 7, mk_date 2024 2 8,
        mk_date 2024 2 9, mk_date 2024 2 10]"
    by simp
  with not_two_dates pixel_dates_A_2024 show ?thesis
    by metis
qed

section \<open>The start Sunday: proofs\<close>

lemma days_to_subtract: "(weekday d + 1) mod 7 = toordinal d mod 7"
  unfolding weekday_def by presburger

lemma get_sunday_of_week_eq:
  "get_sunday_of_week d =
     (if 0 < toordinal d - toordinal d mod 7 \<and> toordinal d - toordinal d mod 7 \<le> MAXORDINAL
      then Inr (Date (toordinal d - toordinal d mod 7)) else Inl OverflowError)"
  by (simp add: get_sunday_of_week_def Let_def days_to_subtract date_add_days_def)

lemma get_sunday_of_week_Inr:
  assumes "get_sunday_of_week d = Inr s"
  shows "toordinal s = toordinal d - toordinal d mod 7" and "weekday s = 6"
    and "0 < toordinal s" and "toordinal s \<le> MAXORDINAL"
proof -
  from assms have s: "s = Date (toordinal d - toordinal d mod 7)"
    and r: "0 < toordinal d - toordinal d mod 7 \<and> toordinal d - toordinal d mod 7 \<le> MAXORDINAL"
    by (auto simp: get_sunday_of_week_eq split: if_splits)
  show "toordinal s = toordinal d - toordinal d mod 7" by (simp add: s)
  show "weekday s = 6" unfolding s weekday_def date.sel by presburger
  show "0 < toordinal s" "toordinal s \<le> MAXORDINAL" using r by (simp_all add: s)
qed

lemma get_sunday_of_week_sunday:
  assumes "weekday s = 6" and "0 < toordinal s" and "toordinal s \<le> MAXORDINAL"
  shows "get_sunday_of_week s = Inr s"
proof -
  from assms(1) have "toordinal s mod 7 = 0"
    unfolding weekday_def by presburger
  with assms(2,3) show ?thesis
    by (simp add: get_sunday_of_week_eq)
qed

lemma get_sunday_of_week_total:
  assumes "7 \<le> toordinal d" and "toordinal d \<le> MAXORDINAL"
  shows "\<exists>s. get_sunday_of_week d = Inr s"
proof -
  have "toordinal d mod 7 \<le> 6" and "0 \<le> toordinal d mod 7" by simp_all
  with assms have "0 < toordinal d - toordinal d mod 7 \<and>
      toordinal d - toordinal d mod 7 \<le> MAXORDINAL" by linarith
  then show ?thesis by (simp add: get_sunday_of_week_eq)
qed

lemma resolve_default:
  assumes "start_sunday a = None"
  shows "resolve_start_sunday e a W =
     (case get_sunday_of_week (today e) of
        Inl err \<Rightarrow> ([], Inl (Raised err))
      | Inr cws \<Rightarrow>
          (case date_add_days cws (- (7 * (int W - 1))) of
             Inl err \<Rightarrow> ([], Inl (Raised err))
           | Inr origin \<Rightarrow> ([], Inr (origin, cws))))"
  by (simp add: resolve_start_sunday_def assms split: sum.splits)

lemma get_sunday_of_week_within:
  assumes "get_sunday_of_week d = Inr s"
  shows "0 \<le> toordinal d - toordinal s" and "toordinal d - toordinal s \<le> 6"
    and "toordinal s = toordinal d - (weekday d + 1) mod 7"
proof -
  note s = get_sunday_of_week_Inr [OF assms]
  have "0 \<le> toordinal d mod 7" and "toordinal d mod 7 \<le> 6" by simp_all
  then show "0 \<le> toordinal d - toordinal s" and "toordinal d - toordinal s \<le> 6"
    by (simp_all add: s(1))
  show "toordinal s = toordinal d - (weekday d + 1) mod 7"
    by (simp only: s(1) days_to_subtract)
qed

text \<open>
  C2.  Without an explicit start date, whenever the start Sunday is computed, the current
  week's Sunday \<open>cws\<close> is the Sunday of the anchor date's week (a Sunday, on the anchor
  date or up to 6 days before it), the start Sunday is \<open>cws\<close> minus \<open>W - 1\<close> weeks (itself a
  Sunday), \<open>origin + (W - 1) weeks\<close> is \<open>cws\<close>, and the Sunday of its week is the Sunday
  of the anchor's week.  The start Sunday is computed for every anchor date that lies at
  least \<open>W\<close> weeks after the first date of the calendar.
\<close>

theorem default_start_right_aligned:
  "start_sunday a = None \<longrightarrow>
   (valid_date (today e) \<and> 0 < W \<and> 7 * int W \<le> toordinal (today e) \<longrightarrow>
      (\<exists>origin cws. resolve_start_sunday e a W = ([], Inr (origin, cws)))) \<and>
   (\<forall>tr origin cws. resolve_start_sunday e a W = (tr, Inr (origin, cws)) \<longrightarrow>
      get_sunday_of_week (today e) = Inr cws \<and> weekday cws = 6 \<and>
      0 \<le> toordinal (today e) - toordinal cws \<and>
      toordinal (today e) - toordinal cws \<le> 6 \<and>
      toordinal cws = toordinal (today e) - (weekday (today e) + 1) mod 7 \<and>
      date_add_days cws (- (7 * (int W - 1))) = Inr origin \<and>
      toordinal origin = toordinal cws - 7 * (int W - 1) \<and>
      weekday origin = 6 \<and>
      date_add_days origin (7 * (int W - 1)) = Inr cws \<and>
      (\<exists>end_week. date_add_days origin (7 * (int W - 1)) = Inr end_week \<and>
         get_sunday_of_week end_week = get_sunday_of_week (today e) \<and>
         get_sunday_of_week end_week = Inr end_week))"
proof (intro impI conjI allI)
  assume none: "start_sunday a = None"
  assume "valid_date (today e) \<and> 0 < W \<and> 7 * int W \<le> toordinal (today e)"
  then have v: "toordinal (today e) \<le> MAXORDINAL" and W: "0 < W"
    and room: "7 * int W \<le> toordinal (today e)"
    by (simp_all add: valid_date_def)
  from W room have "7 \<le> toordinal (today e)" by simp
  from get_sunday_of_week_total [OF this v] obtain cws
    where cws: "get_sunday_of_week (today e) = Inr cws" ..
  note s = get_sunday_of_week_Inr [OF cws]
  define q where "q = toordinal (today e) div 7"
  have cq: "toordinal cws = 7 * q"
    unfolding q_def s(1) by presburger
  have "int W \<le> q"
    unfolding q_def using room by presburger
  then have "0 < toordinal cws - 7 * (int W - 1)"
    unfolding cq by (simp add: algebra_simps)
  moreover have "toordinal cws - 7 * (int W - 1) \<le> MAXORDINAL"
    using s(4) W by (simp add: algebra_simps)
  ultimately have "date_add_days cws (- (7 * (int W - 1))) =
      Inr (Date (toordinal cws - 7 * (int W - 1)))"
    by (simp add: date_add_days_def Let_def)
  with cws show "\<exists>origin cws. resolve_start_sunday e a W = ([], Inr (origin, cws))"
    by (simp add: resolve_default [OF none])
next
  fix tr origin cws
  assume none: "start_sunday a = None"
    and run: "resolve_start_sunday e a W = (tr, Inr (origin, cws))"
  from run have cws: "get_sunday_of_week (today e) = Inr cws"
    and origin: "date_add_days cws (- (7 * (int W - 1))) = Inr origin"
    by (auto simp: resolve_default [OF none] split: sum.splits)
  note s = get_sunday_of_week_Inr [OF cws]
  note w = get_sunday_of_week_within [OF cws]
  from origin have ord: "toordinal origin = toordinal cws - 7 * (int W - 1)"
    by (auto simp: date_add_days_def Let_def split: if_splits)
  have sun_origin: "weekday origin = 6"
    using s(2) unfolding weekday_def ord by presburger
  have rt: "date_add_days origin (7 * (int W - 1)) = Inr cws"
    using s(3,4) by (cases cws) (simp add: date_add_days_def Let_def ord)
  have fix_cws: "get_sunday_of_week cws = Inr cws"
    using s(2,3,4) by (rule get_sunday_of_week_sunday)
  with rt cws
  have ex: "\<exists>end_week. date_add_days origin (7 * (int W - 1)) = Inr end_week \<and>
         get_sunday_of_week end_week = get_sunday_of_week (today e) \<and>
         get_sunday_of_week end_week = Inr end_week"
    by simp
  show "get_sunday_of_week (today e) = Inr cws" by (rule cws)
  show "weekday cws = 6" by (rule s(2))
  show "0 \<le> toordinal (today e) - toordinal cws" by (rule w(1))
  show "toordinal (today e) - toordinal cws \<le> 6" by (rule w(2))
  show "toordinal cws = toordinal (today e) - (weekday (today e) + 1) mod 7" by (rule w(3))
  show "date_add_days cws (- (7 * (int W - 1))) = Inr origin" by (rule origin)
  show "toordinal origin = toordinal cws - 7 * (int W - 1)" by (rule ord)
  show "weekday origin = 6" by (rule sun_origin)
  show "date_add_days origin (7 * (int W - 1)) = Inr cws" by (rule rt)
  show "\<exists>end_week. date_add_days origin (7 * (int W - 1)) = Inr end_week \<and>
         get_sunday_of_week end_week = get_sunday_of_week (today e) \<and>
         get_sunday_of_week end_week = Inr end_week" by (rule ex)
qed

lemma example_today: "today example_env = Date 738895"
  by code_simp

theorem default_start_right_aligned_witness:
  "start_sunday \<lparr>commits_per_pixel = 4, start_sunday = None, dry_run = False\<rparr> = None \<and>
   valid_date (today example_env) \<and> 0 < (35 :: nat) \<and>
   7 * int 35 \<le> toordinal (today example_env) \<and>
   (\<exists>origin cws.
      resolve_start_sunday example_env
        \<lparr>commits_per_pixel = 4, start_sunday = None, dry_run = False\<rparr> 35 =
        ([], Inr (origin, cws)) \<and>
      weekday cws = 6 \<and>
      0 \<le> toordinal (today example_env) - toordinal cws \<and>
      toordinal (today example_env) - toordinal cws \<le> 6 \<and>
      toordinal origin = toordinal cws - 7 * (int 35 - 1))"
proof -
  let ?a = "\<lparr>commits_per_pixel = 4, start_sunday = None, dry_run = False\<rparr>"
  have none: "start_sunday ?a = None" by simp
  have pre: "valid_date (today example_env) \<and> 0 < (35 :: nat) \<and>
             7 * int 35 \<le> toordinal (today example_env)"
    by (simp add: example_today valid_date_def MAXORDINAL_def)
  note inst = default_start_right_aligned [of ?a example_env 35, THEN mp, OF none]
  from inst [THEN conjunct1, THEN mp, OF pre] obtain origin cws
    where run: "resolve_start_sunday example_env ?a 35 = ([], Inr (origin, cws))"
    by blast
  from inst [THEN conjunct2, THEN spec, THEN spec, THEN spec, THEN mp, OF run]
  have "weekday cws = 6 \<and>
      0 \<le> toordinal (today example_env) - toordinal cws \<and>
      toordinal (today example_env) - toordinal cws \<le> 6 \<and>
      toordinal origin = toordinal cws - 7 * (int 35 - 1)"
    by blast
  with run none pre show ?thesis
    by blast
qed

lemma resolve_explicit:
  assumes "start_sunday a = Some s" and "s \<noteq> []"
    and "get_sunday_of_week (today e) = Inr cws"
    and "date_add_days cws (- (7 * (int W - 1))) = Inr dflt"
  shows "resolve_start_sunday e a W =
     (case strptime e s of
        None \<Rightarrow> ([Print_err Invalid_date_format], Inl (Exit 1))
      | Some d \<Rightarrow>
          if weekday d \<noteq> 6 then
            (case get_sunday_of_week d of
               Inl err \<Rightarrow> ([Print Warn_not_sunday], Inl (Raised err))
             | Inr d' \<Rightarrow> ([Print Warn_not_sunday], Inr (d', cws)))
          else ([], Inr (d, cws)))"
  unfolding resolve_start_sunday_def assms(3) sum.case assms(4) assms(1) option.case
  using assms(2) by simp

lemma not_sunday_mod:
  "weekday d \<noteq> 6 \<longleftrightarrow> toordinal d mod 7 \<noteq> 0"
  unfolding weekday_def by presburger

text \<open>
  C3.  Let an explicit start date be supplied and parsed, with the default start of the
  current week computed first.  A date that is a Sunday is used unchanged, without a
  warning.  For a date that is not a Sunday the warning is printed; whenever a start
  Sunday results, it is a Sunday that lies 1 to 6 days before the supplied date; and a
  start Sunday results for every supplied date from 0001-01-07 on.
\<close>

theorem explicit_start_snapped:
  assumes "start_sunday a = Some s" and "s \<noteq> []" and "strptime e s = Some d"
    and "valid_date d"
    and "get_sunday_of_week (today e) = Inr cws"
    and "date_add_days cws (- (7 * (int W - 1))) = Inr dflt"
  shows "(weekday d = 6 \<longrightarrow> resolve_start_sunday e a W = ([], Inr (d, cws))) \<and>
         (weekday d \<noteq> 6 \<longrightarrow>
            (\<exists>r. resolve_start_sunday e a W = ([Print Warn_not_sunday], r)) \<and>
            (7 \<le> toordinal d \<longrightarrow>
               (\<exists>origin. resolve_start_sunday e a W =
                           ([Print Warn_not_sunday], Inr (origin, cws)))) \<and>
            (\<forall>tr origin c. resolve_start_sunday e a W = (tr, Inr (origin, c)) \<longrightarrow>
               weekday origin = 6 \<and> 1 \<le> toordinal d - toordinal origin \<and>
               toordinal d - toordinal origin \<le> 6))"
proof (intro conjI impI allI)
  note res = resolve_explicit [OF assms(1,2,5,6)]
  {
    assume "weekday d = 6"
    then show "resolve_start_sunday e a W = ([], Inr (d, cws))"
      by (simp add: res assms(3))
  }
  {
    assume "weekday d \<noteq> 6"
    then show "\<exists>r. resolve_start_sunday e a W = ([Print Warn_not_sunday], r)"
      by (simp add: res assms(3) split: sum.splits)
  }
  {
    assume ns: "weekday d \<noteq> 6" and "7 \<le> toordinal d"
    with assms(4) obtain sun where "get_sunday_of_week d = Inr sun"
      using get_sunday_of_week_total [of d] by (auto simp: valid_date_def)
    with ns show "\<exists>origin. resolve_start_sunday e a W =
                           ([Print Warn_not_sunday], Inr (origin, cws))"
      by (simp add: res assms(3))
  }
  {
    fix tr origin c
    assume ns: "weekday d \<noteq> 6"
      and run: "resolve_start_sunday e a W = (tr, Inr (origin, c))"
    then have sun: "get_sunday_of_week d = Inr origin"
      by (auto simp: res assms(3) split: sum.splits)
    note o = get_sunday_of_week_Inr [OF sun]
    from ns have m: "toordinal d mod 7 \<noteq> 0"
      by (simp add: not_sunday_mod)
    have "1 \<le> toordinal d mod 7 \<and> toordinal d mod 7 \<le> 6"
      using m by presburger
    then have "1 \<le> toordinal d - toordinal origin \<and> toordinal d - toordinal origin \<le> 6"
      by (simp add: o(1))
    with o(2) show "weekday origin = 6" and "1 \<le> toordinal d - toordinal origin"
      and "toordinal d - toordinal origin \<le> 6"
      by simp_all
  }
qed

theorem explicit_start_snapped_witness:
  "start_sunday \<lparr>commits_per_pixel = 4, start_sunday = Some ''2024-01-10'', dry_run = False\<rparr>
     = Some ''2024-01-10'' \<and>
   ''2024-01-10'' \<noteq> [] \<and>
   strptime example_env ''2024-01-10'' = Some (Date 738895) \<and>
   valid_date (Date 738895) \<and>
   get_sunday_of_week (today example_env) = Inr (Date 738892) \<and>
   date_add_days (Date 738892) (- (7 * (int 35 - 1))) = Inr (Date 738654) \<and>
   weekday (Date 738895) \<noteq> 6 \<and> 7 \<le> toordinal (Date 738895) \<and>
   (\<exists>origin. resolve_start_sunday example_env
       \<lparr>commits_per_pixel = 4, start_sunday = Some ''2024-01-10'', dry_run = False\<rparr> 35 =
       ([Print Warn_not_sunday], Inr (origin, Date 738892)))"
proof -
  let ?a = "\<lparr>commits_per_pixel = 4, start_sunday = Some ''2024-01-10'', dry_run = False\<rparr>"
  have h1: "start_sunday ?a = Some ''2024-01-10''" by simp
  have h2: "''2024-01-10'' \<noteq> []" by simp
  have h3: "strptime example_env ''2024-01-10'' = Some (Date 738895)" by code_simp
  have h4: "valid_date (Date 738895)" by code_simp
  have h5: "get_sunday_of_week (today example_env) = Inr (Date 738892)" by code_simp
  have h6: "date_add_days (Date 738892) (- (7 * (int 35 - 1))) = Inr (Date 738654)" by code_simp
  have ns: "weekday (Date 738895) \<noteq> 6" by code_simp
  have late: "7 \<le> toordinal (Date 738895)" by simp
  from explicit_start_snapped [OF h1 h2 h3 h4 h5 h6, THEN conjunct2, THEN mp, OF ns]
  have "7 \<le> toordinal (Date 738895) \<longrightarrow>
        (\<exists>origin. resolve_start_sunday example_env ?a 35 =
           ([Print Warn_not_sunday], Inr (origin, Date 738892)))"
    by blast
  with late have "\<exists>origin. resolve_start_sunday example_env ?a 35 =
           ([Print Warn_not_sunday], Inr (origin, Date 738892))"
    by blast
  with h1 h2 h3 h4 h5 h6 ns late show ?thesis
    by blast
qed

lemma explicit_start_first_week:
  assumes "start_sunday a = Some s" and "s \<noteq> []" and "strptime e s = Some d"
    and "valid_date d" and "toordinal d < 7"
    and "get_sunday_of_week (today e) = Inr cws"
    and "date_add_days cws (- (7 * (int W - 1))) = Inr dflt"
  shows "resolve_start_sunday e a W = ([Print Warn_not_sunday], Inl (Raised OverflowError))"
proof -
  from assms(4,5) have r: "1 \<le> toordinal d" "toordinal d < 7"
    by (simp_all add: valid_date_def)
  then have m: "toordinal d mod 7 = toordinal d" by simp
  with r have ns: "weekday d \<noteq> 6" by (simp add: not_sunday_mod)
  have "get_sunday_of_week d = Inl OverflowError"
    by (simp add: get_sunday_of_week_eq m)
  with ns show ?thesis
    by (simp add: resolve_explicit [OF assms(1,2,6,7)] assms(3))
qed

section \<open>The whole run: proofs\<close>

lemma main_with_no_repo:
  assumes "rev_parse e = Called_Process_Error"
  shows "main_with msg e a = ([Git_rev_parse, Print_err Not_a_git_repo], Exit 1)"
  by (simp add: main_with_def ensure_git_repo_def then_do_def finish_def assms)

lemma main_with_no_git:
  assumes "rev_parse e = Not_Found"
  shows "main_with msg e a = ([Git_rev_parse], Raised FileNotFoundError)"
  by (simp add: main_with_def ensure_git_repo_def then_do_def finish_def assms)

lemma main_with_unsupported:
  assumes "rev_parse e = Completed" and "build_bitmap msg 1 = Inl err"
  shows "main_with msg e a = ([Git_rev_parse], Raised err)"
  by (simp add: main_with_def ensure_git_repo_def then_do_def finish_def raise_on_def assms)

lemma main_with_no_row:
  assumes "rev_parse e = Completed" and "build_bitmap msg 1 = Inr bitmap"
    and "getitem bitmap 0 = Inl err"
  shows "main_with msg e a = ([Git_rev_parse], Raised err)"
  by (simp add: main_with_def ensure_git_repo_def then_do_def finish_def raise_on_def assms)

lemma main_with_resolve_stops:
  assumes "rev_parse e = Completed" and "build_bitmap msg 1 = Inr bitmap"
    and "getitem bitmap 0 = Inr row0"
    and "resolve_start_sunday e a (length row0) = (tr, Inl out)"
  shows "main_with msg e a = ([Git_rev_parse, Print (Bitmap_width (length row0))] @ tr, out)"
  by (simp add: main_with_def ensure_git_repo_def then_do_def finish_def raise_on_def emit_def
        Let_def assms)

lemma resolve_unparsable:
  assumes "start_sunday a = Some s" and "s \<noteq> []" and "strptime e s = None"
  shows "\<exists>tr out. resolve_start_sunday e a W = (tr, Inl out) \<and> out \<noteq> Returned \<and>
           (\<forall>ev \<in> set tr. ev = Print_err Invalid_date_format)"
  by (simp add: resolve_start_sunday_def assms split: sum.splits)

lemma build_bitmap_fails_iff:
  "(\<exists>err. build_bitmap message gap = Inl err) \<longleftrightarrow> \<not> supported message"
  unfolding build_bitmap_def by (rule build_loop_fails_iff)

text \<open>
  C5.  The bitmap builder fails if and only if some character of the message has no font
  entry, and then with the error for such a character; with all characters supported it
  returns a bitmap.  When the message of a run has an unsupported character, the run
  does nothing but the repository check: it ends with the builder's error (or with the
  failure of the repository check) before any date is computed or commit requested.
\<close>

theorem unsupported_character:
  "((\<exists>err. build_bitmap message gap = Inl err) \<longleftrightarrow>
      (\<exists>ch \<in> set message. FONT_get ch = None)) \<and>
   (\<forall>err. build_bitmap message gap = Inl err \<longrightarrow>
      (\<exists>ch \<in> set message. FONT_get ch = None \<and>
         err = ValueError (''No font pattern for character: '' @ [ch]))) \<and>
   ((\<forall>ch \<in> set message. FONT_get ch \<noteq> None) \<longrightarrow>
      (\<exists>rows. build_bitmap message gap = Inr rows)) \<and>
   ((\<exists>ch \<in> set message. FONT_get ch = None) \<longrightarrow>
      (\<forall>ev \<in> set (fst (main_with message e a)).
         ev = Git_rev_parse \<or> ev = Print_err Not_a_git_repo) \<and>
      snd (main_with message e a) \<noteq> Returned \<and>
      (rev_parse e = Completed \<longrightarrow>
         (\<exists>err. build_bitmap message 1 = Inl err \<and>
            main_with message e a = ([Git_rev_parse], Raised err))))"
proof (intro conjI impI allI)
  show "(\<exists>err. build_bitmap message gap = Inl err) \<longleftrightarrow>
          (\<exists>ch \<in> set message. FONT_get ch = None)"
    by (simp add: build_bitmap_fails_iff supported_def)
next
  fix err assume "build_bitmap message gap = Inl err"
  then show "\<exists>ch \<in> set message. FONT_get ch = None \<and>
         err = ValueError (''No font pattern for character: '' @ [ch])"
    unfolding build_bitmap_def by (rule build_loop_error)
next
  assume "\<forall>ch \<in> set message. FONT_get ch \<noteq> None"
  then have "supported message" by (simp add: supported_def)
  then show "\<exists>rows. build_bitmap message gap = Inr rows"
    by (simp add: build_bitmap_spec)
next
  assume "\<exists>ch \<in> set message. FONT_get ch = None"
  then have "\<not> supported message" by (simp add: supported_def)
  then obtain err where err: "build_bitmap message 1 = Inl err"
    using build_bitmap_fails_iff [of message 1] by blast
  {
    assume "rev_parse e = Completed"
    then show "\<exists>err. build_bitmap message 1 = Inl err \<and>
            main_with message e a = ([Git_rev_parse], Raised err)"
      using err by (simp add: main_with_unsupported)
  }
  have run: "main_with message e a = ([Git_rev_parse], Raised err) \<or>
             main_with message e a = ([Git_rev_parse, Print_err Not_a_git_repo], Exit 1) \<or>
             main_with message e a = ([Git_rev_parse], Raised FileNotFoundError)"
    using err by (cases "rev_parse e")
      (simp_all add: main_with_unsupported main_with_no_repo main_with_no_git)
  then show "\<forall>ev \<in> set (fst (main_with message e a)).
         ev = Git_rev_parse \<or> ev = Print_err Not_a_git_repo"
    by auto
  from run show "snd (main_with message e a) \<noteq> Returned"
    by auto
qed

theorem unsupported_character_witness:
  "(\<exists>ch \<in> set ''Pizza?''. FONT_get ch = None) \<and> rev_parse example_env = Completed \<and>
   build_bitmap ''Pizza?'' 1 = Inl (ValueError ''No font pattern for character: ?'') \<and>
   supported ''Pizza!'' \<and>
   (\<exists>rows. build_bitmap ''Pizza!'' 1 = Inr rows) \<and>
   (\<exists>err. build_bitmap ''Pizza?'' 1 = Inl err \<and>
      main_with ''Pizza?'' example_env
        \<lparr>commits_per_pixel = 4, start_sunday = None, dry_run = False\<rparr> =
        ([Git_rev_parse], Raised err))"
proof -
  let ?a = "\<lparr>commits_per_pixel = 4, start_sunday = None, dry_run = False\<rparr>"
  have bad: "\<exists>ch \<in> set ''Pizza?''. FONT_get ch = None"
    by (simp add: FONT_get_def FONT_def FONT_literal_def Let_def)
  have good: "\<forall>ch \<in> set ''Pizza!''. FONT_get ch \<noteq> None"
    using supported_Pizza by (simp only: supported_def)
  have repo: "rev_parse example_env = Completed"
    by (simp add: example_env_def)
  have err: "build_bitmap ''Pizza?'' 1 = Inl (ValueError ''No font pattern for character: ?'')"
    by code_simp
  note bad_inst = unsupported_character [of "''Pizza?''" 1 example_env ?a]
  note good_inst = unsupported_character [of "''Pizza!''" 1 example_env ?a]
  from good_inst [THEN conjunct2, THEN conjunct2, THEN conjunct1, THEN mp, OF good]
  have ok: "\<exists>rows. build_bitmap ''Pizza!'' 1 = Inr rows" .
  from bad_inst [THEN conjunct2, THEN conjunct2, THEN conjunct2, THEN mp, OF bad]
  have "rev_parse example_env = Completed \<longrightarrow>
         (\<exists>err. build_bitmap ''Pizza?'' 1 = Inl err \<and>
            main_with ''Pizza?'' example_env ?a = ([Git_rev_parse], Raised err))"
    by blast
  with repo have "\<exists>err. build_bitmap ''Pizza?'' 1 = Inl err \<and>
            main_with ''Pizza?'' example_env ?a = ([Git_rev_parse], Raised err)"
    by blast
  with bad supported_Pizza repo err ok show ?thesis
    by blast
qed

lemma default_start_total:
  assumes "valid_date d" and "0 < W" and "7 * int W \<le> toordinal d"
  shows "\<exists>cws dflt. get_sunday_of_week d = Inr cws \<and>
           date_add_days cws (- (7 * (int W - 1))) = Inr dflt"
proof -
  from assms have v: "toordinal d \<le> MAXORDINAL" and seven: "7 \<le> toordinal d"
    by (simp_all add: valid_date_def)
  from get_sunday_of_week_total [OF seven v] obtain cws
    where cws: "get_sunday_of_week d = Inr cws" ..
  note s = get_sunday_of_week_Inr [OF cws]
  define q where "q = toordinal d div 7"
  have cq: "toordinal cws = 7 * q"
    unfolding q_def s(1) by presburger
  have "int W \<le> q"
    unfolding q_def using assms(3) by presburger
  then have lo: "0 < toordinal cws - 7 * (int W - 1)"
    unfolding cq by (simp add: algebra_simps)
  have hi: "toordinal cws - 7 * (int W - 1) \<le> MAXORDINAL"
    using s(4) assms(2) by (simp add: algebra_simps)
  from lo hi have "date_add_days cws (- (7 * (int W - 1))) =
      Inr (Date (toordinal cws - 7 * (int W - 1)))"
    by (simp add: date_add_days_def Let_def)
  with cws show ?thesis by blast
qed

lemma pizza_bitmap:
  "build_bitmap MESSAGE 1 =
     Inr [''11110001110011111011111001110000100'',
          ''10001000100000001000001010001000100'',
          ''10001000100000010000010010001000100'',
          ''11110000100000100000100011111000100'',
          ''10000000100001000001000010001000100'',
          ''10000000100010000010000010001000000'',
          ''10000001110011111011111010001000100'']"
  by code_simp

lemma pizza_row0:
  "getitem [''11110001110011111011111001110000100'',
          ''10001000100000001000001010001000100'',
          ''10001000100000010000010010001000100'',
          ''11110000100000100000100011111000100'',
          ''10000000100001000001000010001000100'',
          ''10000000100010000010000010001000000'',
          ''10000001110011111011111010001000100''] 0 =
     Inr ''11110001110011111011111001110000100''"
  by (simp add: getitem_def)

lemma pizza_width: "length ''11110001110011111011111001110000100'' = 35"
  by simp

lemma main_unparsable:
  assumes "start_sunday a = Some s" and "s \<noteq> []" and "strptime e s = None"
    and "rev_parse e = Completed" and "valid_date (today e)" and "245 \<le> toordinal (today e)"
  shows "main e a =
     ([Git_rev_parse, Print (Bitmap_width 35), Print_err Invalid_date_format], Exit 1)"
proof -
  have "7 * int 35 \<le> toordinal (today e)" using assms(6) by simp
  from default_start_total [OF assms(5) _ this] obtain cws dflt
    where c: "get_sunday_of_week (today e) = Inr cws"
      and d: "date_add_days cws (- (7 * (int 35 - 1))) = Inr dflt"
    by auto
  have res: "resolve_start_sunday e a (length ''11110001110011111011111001110000100'') =
               ([Print_err Invalid_date_format], Inl (Exit 1))"
    unfolding pizza_width
    by (simp only: resolve_explicit [OF assms(1,2) c d] assms(3) option.case)
  from main_with_resolve_stops [OF assms(4) pizza_bitmap pizza_row0 res]
  show ?thesis
    unfolding main_def pizza_width by simp
qed

lemma main_with_unparsable:
  assumes "start_sunday a = Some s" and "s \<noteq> []" and "strptime e s = None"
  shows "\<exists>tr out. main_with msg e a = (tr, out) \<and> out \<noteq> Returned \<and>
           (\<forall>dt m. Git_commit dt m \<notin> set tr)"
proof (cases "rev_parse e")
  case Called_Process_Error
  then show ?thesis by (simp add: main_with_no_repo)
next
  case Not_Found
  then show ?thesis by (simp add: main_with_no_git)
next
  case Completed
  show ?thesis
  proof (cases "build_bitmap msg 1")
    case (Inl err)
    with Completed show ?thesis by (simp add: main_with_unsupported)
  next
    case (Inr bitmap)
    show ?thesis
    proof (cases "getitem bitmap 0")
      case (Inl err)
      with Completed Inr show ?thesis by (simp add: main_with_no_row)
    next
      case row: (Inr row0)
      from resolve_unparsable [OF assms, of "length row0"] obtain tr out
        where res: "resolve_start_sunday e a (length row0) = (tr, Inl out)"
          and out: "out \<noteq> Returned"
          and tr: "\<forall>ev \<in> set tr. ev = Print_err Invalid_date_format"
        by blast
      from tr have "\<forall>dt m. Git_commit dt m \<notin> set tr" by auto
      with main_with_resolve_stops [OF Completed Inr row res] out show ?thesis
        by simp
    qed
  qed
qed

lemma resolve_empty:
  assumes "start_sunday a = Some []"
  shows "resolve_start_sunday e a W = resolve_start_sunday e (a\<lparr>start_sunday := None\<rparr>) W"
  by (simp add: resolve_start_sunday_def assms split: sum.splits)

lemma main_with_empty:
  assumes "start_sunday a = Some []"
  shows "main_with msg e a = main_with msg e (a\<lparr>start_sunday := None\<rparr>)"
proof -
  have d: "dry_run (a\<lparr>start_sunday := None\<rparr>) = dry_run a"
    and c: "commits_per_pixel (a\<lparr>start_sunday := None\<rparr>) = commits_per_pixel a"
    by simp_all
  show ?thesis
    unfolding main_with_def resolve_empty [OF assms] d c by (rule refl)
qed

text \<open>
  C6, as amended.  For every override start-date string that is not empty and that the
  library's parser rejects, the run ends abnormally and requests no commit; when the
  repository check passes and the default start of the current week can be computed, it
  prints the invalid-date message and exits with status 1.  An empty override string is
  treated as no override: the start Sunday and the whole run are those of the same
  arguments without a start date.
\<close>

theorem unparsable_start_aborts:
  "(start_sunday a = Some s \<and> s \<noteq> [] \<and> strptime e s = None \<longrightarrow>
      (\<forall>dt m. Git_commit dt m \<notin> set (fst (main_with msg e a))) \<and>
      snd (main_with msg e a) \<noteq> Returned \<and>
      (rev_parse e = Completed \<and> valid_date (today e) \<and> 245 \<le> toordinal (today e) \<longrightarrow>
         main e a =
           ([Git_rev_parse, Print (Bitmap_width 35), Print_err Invalid_date_format], Exit 1))) \<and>
   (start_sunday a = Some [] \<longrightarrow>
      resolve_start_sunday e a W = resolve_start_sunday e (a\<lparr>start_sunday := None\<rparr>) W \<and>
      main_with msg e a = main_with msg e (a\<lparr>start_sunday := None\<rparr>) \<and>
      main e a = main e (a\<lparr>start_sunday := None\<rparr>))"
proof (intro conjI impI)
  assume h: "start_sunday a = Some s \<and> s \<noteq> [] \<and> strptime e s = None"
  then have h1: "start_sunday a = Some s" and h2: "s \<noteq> []" and h3: "strptime e s = None"
    by simp_all
  from main_with_unparsable [OF h1 h2 h3, of msg] obtain tr out
    where run: "main_with msg e a = (tr, out)" and out: "out \<noteq> Returned"
      and tr: "\<forall>dt m. Git_commit dt m \<notin> set tr"
    by blast
  from run tr show "\<forall>dt m. Git_commit dt m \<notin> set (fst (main_with msg e a))"
    by simp
  from run out show "snd (main_with msg e a) \<noteq> Returned"
    by simp
  assume "rev_parse e = Completed \<and> valid_date (today e) \<and> 245 \<le> toordinal (today e)"
  then show "main e a =
      ([Git_rev_parse, Print (Bitmap_width 35), Print_err Invalid_date_format], Exit 1)"
    using main_unparsable [OF h1 h2 h3] by blast
next
  assume empty: "start_sunday a = Some []"
  show "resolve_start_sunday e a W = resolve_start_sunday e (a\<lparr>start_sunday := None\<rparr>) W"
    using empty by (rule resolve_empty)
  show "main_with msg e a = main_with msg e (a\<lparr>start_sunday := None\<rparr>)"
    using empty by (rule main_with_empty)
  show "main e a = main e (a\<lparr>start_sunday := None\<rparr>)"
    unfolding main_def using empty by (rule main_with_empty)
qed

theorem unparsable_start_aborts_witness:
  "start_sunday \<lparr>commits_per_pixel = 4, start_sunday = Some ''2024-13-01'', dry_run = False\<rparr>
     = Some ''2024-13-01'' \<and>
   ''2024-13-01'' \<noteq> [] \<and> strptime example_env ''2024-13-01'' = None \<and>
   rev_parse example_env = Completed \<and> valid_date (today example_env) \<and>
   245 \<le> toordinal (today example_env) \<and>
   main example_env
     \<lparr>commits_per_pixel = 4, start_sunday = Some ''2024-13-01'', dry_run = False\<rparr> =
     ([Git_rev_parse, Print (Bitmap_width 35), Print_err Invalid_date_format], Exit 1) \<and>
   start_sunday \<lparr>commits_per_pixel = 4, start_sunday = Some [], dry_run = False\<rparr> = Some [] \<and>
   main example_env \<lparr>commits_per_pixel = 4, start_sunday = Some [], dry_run = False\<rparr> =
     main example_env \<lparr>commits_per_pixel = 4, start_sunday = None, dry_run = False\<rparr>"
proof -
  let ?a = "\<lparr>commits_per_pixel = 4, start_sunday = Some ''2024-13-01'', dry_run = False\<rparr>"
  let ?b = "\<lparr>commits_per_pixel = 4, start_sunday = Some [], dry_run = False\<rparr>"
  have h: "start_sunday ?a = Some ''2024-13-01'' \<and> ''2024-13-01'' \<noteq> [] \<and>
           strptime example_env ''2024-13-01'' = None"
    by code_simp
  have pre: "rev_parse example_env = Completed \<and> valid_date (today example_env) \<and>
             245 \<le> toordinal (today example_env)"
    by (simp add: example_today valid_date_def MAXORDINAL_def) (simp add: example_env_def)
  have empty: "start_sunday ?b = Some []" by simp
  from unparsable_start_aborts [of ?a "''2024-13-01''" example_env MESSAGE 35,
      THEN conjunct1, THEN mp, OF h, THEN conjunct2, THEN conjunct2, THEN mp, OF pre]
  have stop: "main example_env ?a =
     ([Git_rev_parse, Print (Bitmap_width 35), Print_err Invalid_date_format], Exit 1)" .
  from unparsable_start_aborts [of ?b "[]" example_env MESSAGE 35,
      THEN conjunct2, THEN mp, OF empty, THEN conjunct2, THEN conjunct2]
  have "main example_env ?b = main example_env (?b\<lparr>start_sunday := None\<rparr>)" .
  then have same: "main example_env ?b =
      main example_env \<lparr>commits_per_pixel = 4, start_sunday = None, dry_run = False\<rparr>"
    by simp
  from h pre stop empty same show ?thesis
    by blast
qed

text \<open>
  The claim C6 as stated fails on the empty string: the parser rejects it, but
  \<^verbatim>\<open>if args.start_sunday:\<close> treats it as no override, so the run goes on with the default
  start and, after the confirmation, requests commits and returns normally.
\<close>

theorem empty_start_string_counterexample:
  "strptime example_env [] = None \<and>
   snd (main example_env \<lparr>commits_per_pixel = 1, start_sunday = Some [], dry_run = False\<rparr>)
     = Returned \<and>
   Git_commit (Date 738654) (Pixel_for_Pizza (Date 738654) 1 1) \<in>
     set (fst (main example_env
       \<lparr>commits_per_pixel = 1, start_sunday = Some [], dry_run = False\<rparr>))"
  by code_simp

text \<open>
  When every commit succeeds, the commit loop requests, for each planned date in order,
  \<open>commits_per_pixel\<close> commits: a date is repeated only by this multiplier.
\<close>

lemma part_loop_completed:
  assumes "\<forall>m. git_commit e d m = Completed"
  shows "part_loop e d n parts =
           (map (\<lambda>i. Git_commit d (Pixel_for_Pizza d (int i + 1) n)) parts, Inr ())"
  using assms
  by (induction parts) (simp_all add: then_do_def make_commit_for_date_def)

lemma commit_loop_completed:
  assumes "\<forall>d m. git_commit e d m = Completed"
  shows "commit_loop e n ds =
           (concat (map (\<lambda>d. map (\<lambda>i. Git_commit d (Pixel_for_Pizza d (int i + 1) n))
                                 [0..<nat n]) ds), Inr ())"
  using assms
  by (induction ds) (simp_all add: then_do_def part_loop_completed)

end
